theory Spec2Isabelle
  imports Main "HOL-Library.Multiset"
begin

section \<open>Strings\<close>

text \<open>
  A \<open>string\<close> holds one \<open>char\<close> per character, a code point up to U+00FF (the range of
  an HTTP header value, which the \<open>requests\<close> library decodes as Latin-1). On that range
  \<open>str.lower\<close> moves \<open>A\<close>..\<open>Z\<close> and the capital letters U+00C0..U+00DE, the
  multiplication sign U+00D7 apart, 32 places up and leaves every other character as it
  is; and the characters for which \<open>str.isspace\<close> holds, the separators of
  \<open>str.split()\<close>, are the codes 9 to 13 and 28 to 32, U+0085 and U+00A0.
\<close>

definition lower_char :: "char \<Rightarrow> char" where
  "lower_char c =
     (let n = (of_char c :: nat)
      in if (65 \<le> n \<and> n \<le> 90) \<or> (192 \<le> n \<and> n \<le> 222 \<and> n \<noteq> 215)
         then char_of (n + 32) else c)"

definition lower :: "string \<Rightarrow> string" where
  "lower s = map lower_char s"

definition is_space :: "char \<Rightarrow> bool" where
  "is_space c =
     (let n = (of_char c :: nat)
      in (9 \<le> n \<and> n \<le> 13) \<or> (28 \<le> n \<and> n \<le> 32) \<or> n = 133 \<or> n = 160)"

fun startswith :: "string \<Rightarrow> string \<Rightarrow> bool" where
  "startswith s [] = True"
| "startswith [] (p # ps) = False"
| "startswith (c # cs) (p # ps) = (c = p \<and> startswith cs ps)"

text \<open>\<open>contains s sub\<close> is Python's \<open>sub in s\<close> on strings.\<close>

fun contains :: "string \<Rightarrow> string \<Rightarrow> bool" where
  "contains [] sub = (sub = [])"
| "contains (c # cs) sub = (startswith (c # cs) sub \<or> contains cs sub)"

definition endswith :: "string \<Rightarrow> string \<Rightarrow> bool" where
  "endswith s suffix = startswith (rev s) (rev suffix)"


section \<open>The downloader (pdf-downloader.py)\<close>

text \<open>
  \<open>download_pdf\<close> talks to the network and the file system. One pass through the body
  of its \<open>try\<close> block either raises in \<open>requests.get\<close> / \<open>raise_for_status\<close>, or obtains a
  response with a declared content type and then saves the body, which may raise as
  well. The exception classes matter because they select the handler:
  \<open>requests.exceptions.SSLError\<close>, any other \<open>RequestException\<close>, and everything else
  (for instance an \<open>OSError\<close> from \<open>open\<close>), which no handler catches.
\<close>

datatype failure = SSLError | RequestException | OtherException

datatype attempt_outcome =
    GetFailed failure
  | Got string "failure option"

text \<open>
  The network is a function from the attempt number and the \<open>verify\<close> flag of the request
  to the outcome of that attempt.
\<close>

type_synonym network = "nat \<Rightarrow> bool \<Rightarrow> attempt_outcome"

datatype message =
    WarnContentType
  | Successfully
  | SSLErrorRetrying nat
  | AttemptingWithoutSSL
  | FailedSSL
  | AttemptFailedRetrying nat
  | FailedAfter

datatype event =
    Get nat bool
  | Saved
  | Sleep nat
  | Print message

text \<open>What a call yields: one of Python's \<open>True\<close>, \<open>False\<close>, \<open>None\<close>, or an exception.\<close>

datatype py_result = PyTrue | PyFalse | PyNone | Raised

definition max_retries :: nat where
  "max_retries = 3"

definition retry_delay :: nat where
  "retry_delay = 2"

text \<open>The two \<open>except\<close> clauses, in the order of the source.\<close>

datatype handled = Continue "event list" | Stop py_result "event list"

definition handle_failure :: "failure \<Rightarrow> nat \<Rightarrow> event list \<Rightarrow> handled" where
  "handle_failure f attempt tr =
     (case f of
        SSLError \<Rightarrow>
          if attempt < max_retries - 1
          then Continue (tr @ [Print (SSLErrorRetrying (attempt + 1)), Sleep retry_delay])
          else if attempt = max_retries - 1
          then Continue (tr @ [Print AttemptingWithoutSSL])
          else Stop PyFalse (tr @ [Print FailedSSL])
      | RequestException \<Rightarrow>
          if attempt < max_retries - 1
          then Continue (tr @ [Print (AttemptFailedRetrying (attempt + 1)), Sleep retry_delay])
          else Stop PyFalse (tr @ [Print FailedAfter])
      | OtherException \<Rightarrow> Stop Raised tr)"

text \<open>
  The \<open>for attempt in range(max_retries)\<close> loop, as recursion over the attempt numbers
  still to run. Falling off the end of the loop is falling off the end of the function:
  Python returns \<open>None\<close>.
\<close>

fun attempts :: "network \<Rightarrow> bool \<Rightarrow> nat list \<Rightarrow> event list \<Rightarrow> py_result \<times> event list" where
  "attempts net verify_ssl [] tr = (PyNone, tr)"
| "attempts net verify_ssl (attempt # rest) tr =
     (let verify = (verify_ssl \<or> attempt < max_retries - 1);
          tr1 = tr @ [Get attempt verify]
      in case net attempt verify of
           GetFailed f \<Rightarrow>
             (case handle_failure f attempt tr1 of
                Continue tr2 \<Rightarrow> attempts net verify_ssl rest tr2
              | Stop r tr2 \<Rightarrow> (r, tr2))
         | Got content_type saving \<Rightarrow>
             (let tr2 = (if \<not> contains (lower content_type) ''pdf'' \<and> attempt = max_retries - 1
                         then tr1 @ [Print WarnContentType] else tr1)
              in case saving of
                   None \<Rightarrow> (PyTrue, tr2 @ [Saved, Print Successfully])
                 | Some f \<Rightarrow>
                     (case handle_failure f attempt tr2 of
                        Continue tr3 \<Rightarrow> attempts net verify_ssl rest tr3
                      | Stop r tr3 \<Rightarrow> (r, tr3))))"

definition download_pdf :: "network \<Rightarrow> bool \<Rightarrow> py_result \<times> event list" where
  "download_pdf net verify_ssl = attempts net verify_ssl [0..<max_retries] []"


section \<open>The simpler downloader (pdf_downloader.py)\<close>

text \<open>
  The second module has a \<open>download_pdf\<close> of its own: every request is made with
  \<open>verify=False\<close>, a single handler catches \<open>RequestException\<close> (which \<open>SSLError\<close>
  inherits from), it sleeps after every failed attempt, and \<open>return False\<close> follows the
  loop.
\<close>

datatype simple_message = Downloaded | AttemptFailed nat | FailedToDownload

datatype simple_event =
    SGet nat bool
  | SSaved
  | SSleep nat
  | SPrint simple_message

fun simple_attempts ::
  "network \<Rightarrow> nat list \<Rightarrow> simple_event list \<Rightarrow> py_result \<times> simple_event list" where
  "simple_attempts net [] tr = (PyFalse, tr @ [SPrint FailedToDownload])"
| "simple_attempts net (attempt # rest) tr =
     (let tr1 = tr @ [SGet attempt False];
          retry = simple_attempts net rest
                    (tr1 @ [SPrint (AttemptFailed (attempt + 1)), SSleep 2])
      in case net attempt False of
           GetFailed OtherException \<Rightarrow> (Raised, tr1)
         | GetFailed _ \<Rightarrow> retry
         | Got content_type None \<Rightarrow> (PyTrue, tr1 @ [SSaved, SPrint Downloaded])
         | Got content_type (Some OtherException) \<Rightarrow> (Raised, tr1)
         | Got content_type (Some _) \<Rightarrow> retry)"

definition download_pdf_simple :: "network \<Rightarrow> py_result \<times> simple_event list" where
  "download_pdf_simple net = simple_attempts net [0..<3] []"

section \<open>Reading traces and networks\<close>

text \<open>The requests of a trace, each with its attempt number and \<open>verify\<close> flag, in order.\<close>

fun gets :: "event list \<Rightarrow> (nat \<times> bool) list" where
  "gets [] = []"
| "gets (Get a v # tr) = (a, v) # gets tr"
| "gets (e # tr) = gets tr"

text \<open>The pauses of a trace, in order.\<close>

fun sleeps :: "event list \<Rightarrow> nat list" where
  "sleeps [] = []"
| "sleeps (Sleep d # tr) = d # sleeps tr"
| "sleeps (e # tr) = sleeps tr"

fun simple_gets :: "simple_event list \<Rightarrow> (nat \<times> bool) list" where
  "simple_gets [] = []"
| "simple_gets (SGet a v # tr) = (a, v) # simple_gets tr"
| "simple_gets (e # tr) = simple_gets tr"

fun simple_sleeps :: "simple_event list \<Rightarrow> nat list" where
  "simple_sleeps [] = []"
| "simple_sleeps (SSleep d # tr) = d # simple_sleeps tr"
| "simple_sleeps (e # tr) = simple_sleeps tr"

text \<open>
  \<open>fails_with f out\<close>: the attempt raised an exception of class \<open>f\<close>, in the request or
  while the body was being saved.
\<close>

fun fails_with :: "failure \<Rightarrow> attempt_outcome \<Rightarrow> bool" where
  "fails_with f (GetFailed g) = (f = g)"
| "fails_with f (Got content_type saving) = (saving = Some f)"

text \<open>A server whose certificate does not validate: it answers only unverified requests.\<close>

definition bad_certificate :: network where
  "bad_certificate attempt verify =
     (if verify then GetFailed SSLError else Got ''application/pdf'' None)"

text \<open>A server that is unreachable: every request times out.\<close>

definition unreachable :: network where
  "unreachable attempt verify = GetFailed RequestException"

text \<open>A server that answers at once with a web page.\<close>

definition web_page :: network where
  "web_page attempt verify = Got ''text/html'' None"

text \<open>An attempt that failed in a way the handlers retry.\<close>

definition retryable :: "attempt_outcome \<Rightarrow> bool" where
  "retryable out = (fails_with SSLError out \<or> fails_with RequestException out)"

text \<open>A server that times out twice and then answers with a web page.\<close>

definition flaky_web_page :: network where
  "flaky_web_page attempt verify =
     (if attempt < 2 then GetFailed RequestException else Got ''text/html'' None)"

text \<open>What the handlers print before they pause and retry.\<close>

definition retry_message :: "attempt_outcome \<Rightarrow> nat \<Rightarrow> message" where
  "retry_message out a =
     (if fails_with SSLError out then SSLErrorRetrying (a + 1) else AttemptFailedRetrying (a + 1))"

section \<open>Keyword extraction (PDFProcessor._extract_keywords)\<close>

text \<open>
  The text that \<open>_extract_keywords\<close> receives is a Python \<open>str\<close>, a sequence of Unicode
  code points of any size. Here it is a list over an arbitrary type \<open>'c\<close> of characters,
  and the two facts about characters that the function takes from Python's Unicode
  tables are parameters: \<open>str_lower\<close> is \<open>str.lower\<close>, a function on whole strings (it
  may change the length of a string), and \<open>isspace\<close> tells the characters that
  \<open>str.split()\<close> separates at.
\<close>

record 'c unicode =
  str_lower :: "'c list \<Rightarrow> 'c list"
  isspace :: "'c \<Rightarrow> bool"

text \<open>The tables on the characters of a \<open>string\<close>.\<close>

definition latin1 :: "char unicode" where
  "latin1 = \<lparr>str_lower = lower, isspace = is_space\<rparr>"

text \<open>
  \<open>str.split()\<close> without arguments: the maximal runs of characters that are not
  whitespace, in order; no empty strings. \<open>cur\<close> is the run being read.
\<close>

fun split_from :: "('c \<Rightarrow> bool) \<Rightarrow> 'c list \<Rightarrow> 'c list \<Rightarrow> 'c list list" where
  "split_from sp cur [] = (if cur = [] then [] else [cur])"
| "split_from sp cur (c # cs) =
     (if sp c then (if cur = [] then split_from sp [] cs else cur # split_from sp [] cs)
      else split_from sp (cur @ [c]) cs)"

definition py_split :: "'c unicode \<Rightarrow> 'c list \<Rightarrow> 'c list list" where
  "py_split u s = split_from (isspace u) [] s"

text \<open>
  A Python \<open>dict\<close> as an association list in insertion order: assigning to a key that is
  present keeps its position, assigning to a new key appends it.
\<close>

type_synonym ('k, 'v) dict = "('k \<times> 'v) list"

definition dict_get :: "('k, 'v) dict \<Rightarrow> 'k \<Rightarrow> 'v \<Rightarrow> 'v" where
  "dict_get d k dflt = (case map_of d k of None \<Rightarrow> dflt | Some v \<Rightarrow> v)"

fun dict_set :: "('k, 'v) dict \<Rightarrow> 'k \<Rightarrow> 'v \<Rightarrow> ('k, 'v) dict" where
  "dict_set [] k v = [(k, v)]"
| "dict_set ((k', v') # d) k v = (if k' = k then (k', v) # d else (k', v') # dict_set d k v)"

text \<open>The loop over \<open>words\<close> that fills \<open>word_freq\<close>.\<close>

fun count_words :: "'c list list \<Rightarrow> ('c list, int) dict \<Rightarrow> ('c list, int) dict" where
  "count_words [] word_freq = word_freq"
| "count_words (word # words) word_freq =
     count_words words
       (if length word > 3 then dict_set word_freq word (dict_get word_freq word 0 + 1)
        else word_freq)"

text \<open>
  \<open>sorted(xs, key=key, reverse=True)\<close>: CPython reverses the list, sorts it with its
  stable ascending sort, and reverses the result.
\<close>

definition sorted_reverse :: "('a \<Rightarrow> int) \<Rightarrow> 'a list \<Rightarrow> 'a list" where
  "sorted_reverse key xs = rev (sort_key key (rev xs))"

text \<open>
  The slice \<open>xs[:k]\<close>: a negative bound counts from the end of the list.
\<close>

definition slice_to :: "int \<Rightarrow> 'a list \<Rightarrow> 'a list" where
  "slice_to k xs = (if 0 \<le> k then take (nat k) xs else take (length xs - nat (- k)) xs)"

record 'c keyword =
  word :: "'c list"
  frequency :: int

definition extract_keywords :: "'c unicode \<Rightarrow> 'c list \<Rightarrow> int \<Rightarrow> 'c keyword list" where
  "extract_keywords u text max_keywords =
     (let words = py_split u (str_lower u text);
          word_freq = count_words words [];
          keywords = slice_to max_keywords (sorted_reverse snd word_freq)
      in map (\<lambda>(w, freq). \<lparr>word = w, frequency = freq\<rparr>) keywords)"

text \<open>The default of the parameter \<open>max_keywords\<close>.\<close>

definition default_max_keywords :: int where
  "default_max_keywords = 10"


section \<open>The ranking as the specification words it\<close>

text \<open>
  The specification's algorithm, step by step: lowercase, split on whitespace, discard
  tokens of length at most 3, count frequencies, sort by frequency descending with ties
  broken by first-occurrence order, truncate to \<open>maxKeywords\<close> entries.
\<close>

text \<open>The distinct elements of a list in the order of their first occurrence.\<close>

fun first_seen :: "'a list \<Rightarrow> 'a list \<Rightarrow> 'a list" where
  "first_seen seen [] = []"
| "first_seen seen (x # xs) =
     (if x \<in> set seen then first_seen seen xs else x # first_seen (x # seen) xs)"

definition rank_spec :: "'c unicode \<Rightarrow> 'c list \<Rightarrow> int \<Rightarrow> 'c keyword list" where
  "rank_spec u text max_keywords =
     (let tokens = filter (\<lambda>w. 3 < length w) (py_split u (str_lower u text));
          counted = map (\<lambda>w. (w, int (count_list tokens w))) (first_seen [] tokens);
          ranked = sort_key (\<lambda>(w, c). - c) counted
      in map (\<lambda>(w, c). \<lparr>word = w, frequency = c\<rparr>) (take (nat max_keywords) ranked))"


section \<open>The document store (MongoDBHandler)\<close>

text \<open>
  Stored values and documents. A document is a dictionary from field names to values, in
  field order; a collection is the list of its documents in insertion order. Timestamps
  are readings of a clock and \<open>ObjectId\<close>s are numbers.
\<close>

datatype bson =
    BNull
  | BBool bool
  | BInt int
  | BStr string
  | BTime nat
  | BOid nat
  | BArr "bson list"
  | BDoc "(string \<times> bson) list"

type_synonym document = "(string, bson) dict"

datatype exn =
    OSError string
  | PyMongoError string
  | PdfReadError string
  | TypeError string
  | KeyError string
  | ValueError string

text \<open>\<open>str(e)\<close>: the message of an exception.\<close>

fun str_of :: "exn \<Rightarrow> string" where
  "str_of (OSError m) = m"
| "str_of (PyMongoError m) = m"
| "str_of (PdfReadError m) = m"
| "str_of (TypeError m) = m"
| "str_of (KeyError m) = m"
| "str_of (ValueError m) = m"

fun is_PyMongoError :: "exn \<Rightarrow> bool" where
  "is_PyMongoError (PyMongoError m) = True"
| "is_PyMongoError e = False"

text \<open>
  The state the program works on: the three collections, the next \<open>ObjectId\<close> the store
  hands out, and the clock that \<open>datetime.now\<close> reads. Every reading advances the clock.
\<close>

record world =
  documents :: "document list"
  processing_status :: "document list"
  errors :: "document list"
  next_oid :: nat
  clock :: nat

definition now :: "world \<Rightarrow> nat \<times> world" where
  "now w = (clock w, w\<lparr>clock := clock w + 1\<rparr>)"

text \<open>
  What the program cannot decide: the file system, the hash function, the PDF parser,
  whether the database server answers an operation or raises a \<open>PyMongoError\<close>
  (\<open>db_fails\<close> gives the message of the error), and what the server makes of an update
  whose field names are paths (\<open>path_update\<close>, see \<open>set_and_push\<close> below).
\<close>

datatype db_op =
    UpsertDocument string
  | UpsertStatus string
  | FindDocument string
  | UpdateDocument bson
  | InsertError string

record env =
  path_exists :: "string \<Rightarrow> bool"
  listdir :: "string \<Rightarrow> exn + string list"
  read_file :: "string \<Rightarrow> exn + string"
  sha256_hex :: "string \<Rightarrow> string"
  read_pdf :: "string \<Rightarrow> exn + string list"
  str_of_id :: "bson \<Rightarrow> string"
  db_fails :: "db_op \<Rightarrow> string option"
  path_update :: "(string \<times> bson) list \<Rightarrow> string \<Rightarrow> bson \<Rightarrow> document \<Rightarrow> document option"

subsection \<open>The collection operations the handler calls\<close>

text \<open>
  The query \<open>{field: v}\<close> matches a document whose field equals \<open>v\<close> or is an array
  that contains \<open>v\<close>.
\<close>

definition matches :: "string \<Rightarrow> bson \<Rightarrow> document \<Rightarrow> bool" where
  "matches field v doc =
     (case map_of doc field of
        None \<Rightarrow> False
      | Some (BArr xs) \<Rightarrow> BArr xs = v \<or> v \<in> set xs
      | Some x \<Rightarrow> x = v)"

text \<open>\<open>$set\<close>, and the merge of dictionary displays \<open>{**a, k: v, ...}\<close>: field by field.\<close>

fun set_fields :: "document \<Rightarrow> (string \<times> bson) list \<Rightarrow> document" where
  "set_fields doc [] = doc"
| "set_fields doc ((k, v) # kvs) = set_fields (dict_set doc k v) kvs"

text \<open>An update touches the first matching document only.\<close>

fun update_first :: "('a \<Rightarrow> bool) \<Rightarrow> ('a \<Rightarrow> 'a) \<Rightarrow> 'a list \<Rightarrow> 'a list" where
  "update_first p f [] = []"
| "update_first p f (x # xs) = (if p x then f x # xs else x # update_first p f xs)"

text \<open>
  \<open>update_one({field: v}, {"$setOnInsert": kvs}, upsert=True)\<close>: nothing changes when a
  document matches; otherwise a document is inserted, built from the query and the
  fields, under a fresh \<open>_id\<close>, which is the result's \<open>upserted_id\<close>.
\<close>

definition upsert_set_on_insert ::
  "document list \<Rightarrow> nat \<Rightarrow> string \<Rightarrow> bson \<Rightarrow> (string \<times> bson) list \<Rightarrow> document list \<times> nat option" where
  "upsert_set_on_insert coll oid field v kvs =
     (if list_ex (matches field v) coll then (coll, None)
      else (coll @ [set_fields [(''_id'', BOid oid), (field, v)] kvs], Some oid))"

text \<open>\<open>update_one({field: v}, {"$set": kvs}, upsert=True)\<close>.\<close>

definition upsert_set ::
  "document list \<Rightarrow> nat \<Rightarrow> string \<Rightarrow> bson \<Rightarrow> (string \<times> bson) list \<Rightarrow> document list \<times> nat option" where
  "upsert_set coll oid field v kvs =
     (if list_ex (matches field v) coll
      then (update_first (matches field v) (\<lambda>doc. set_fields doc kvs) coll, None)
      else (coll @ [set_fields [(''_id'', BOid oid), (field, v)] kvs], Some oid))"

text \<open>The next \<open>ObjectId\<close> is used up when a document was inserted.\<close>

definition bump_oid :: "nat option \<Rightarrow> nat \<Rightarrow> nat" where
  "bump_oid upserted_id oid = (case upserted_id of None \<Rightarrow> oid | Some _ \<Rightarrow> oid + 1)"

text \<open>
  In an update the server reads a field name that contains a dot as a path into embedded
  documents and arrays, and it gives the empty name and a name that starts with a
  dollar sign a treatment of their own. The other names each name one field of the
  document.
\<close>

definition plain_name :: "string \<Rightarrow> bool" where
  "plain_name k = (k \<noteq> [] \<and> CHR ''.'' \<notin> set k \<and> hd k \<noteq> CHR ''$'')"

text \<open>
  \<open>update_one({"_id": doc_id}, {"$set": kvs, "$push": {field: entry}})\<close> on one
  document. When every name in \<open>kvs\<close> names one field, \<open>$set\<close> assigns field by field;
  the server rejects an update that sets and pushes the same field, that changes \<open>_id\<close>,
  or that pushes to a field that is not an array; a missing field becomes a one-element
  array. When some name in \<open>kvs\<close> is a path, the outcome is the server's, \<open>path_update\<close>:
  the new document, or nothing when the server rejects the update.
\<close>

definition set_and_push ::
  "env \<Rightarrow> (string \<times> bson) list \<Rightarrow> string \<Rightarrow> bson \<Rightarrow> document \<Rightarrow> document option" where
  "set_and_push env kvs field entry doc =
     (if \<not> list_all plain_name (map fst kvs) then path_update env kvs field entry doc
      else if field \<in> fst ` set kvs then None
      else if map_of kvs ''_id'' \<noteq> None \<and> map_of kvs ''_id'' \<noteq> map_of doc ''_id'' then None
      else case map_of doc field of
             None \<Rightarrow> Some (set_fields doc kvs @ [(field, BArr [entry])])
           | Some (BArr xs) \<Rightarrow> Some (dict_set (set_fields doc kvs) field (BArr (xs @ [entry])))
           | Some _ \<Rightarrow> None)"

subsection \<open>\<open>_handle_error\<close>\<close>

text \<open>
  The error document is inserted into \<open>errors\<close>; a \<open>PyMongoError\<close> of the insert is
  logged and goes no further.
\<close>

definition handle_error :: "env \<Rightarrow> world \<Rightarrow> string \<Rightarrow> string \<Rightarrow> string \<Rightarrow> world" where
  "handle_error env w error_type filename error_message =
     (let (t, w1) = now w;
          error_doc = [(''error_type'', BStr error_type),
                       (''filename'', BStr filename),
                       (''error_message'', BStr error_message),
                       (''timestamp'', BTime t),
                       (''recovered'', BBool False)]
      in case db_fails env (InsertError filename) of
           Some msg \<Rightarrow> w1
         | None \<Rightarrow> w1\<lparr>errors := errors w1 @ [error_doc @ [(''_id'', BOid (next_oid w1))]],
                       next_oid := next_oid w1 + 1\<rparr>)"

subsection \<open>\<open>store_initial_metadata\<close>\<close>

text \<open>The \<open>except Exception\<close> clause: record the error, raise it again.\<close>

definition metadata_failed :: "env \<Rightarrow> world \<Rightarrow> string \<Rightarrow> exn \<Rightarrow> (exn + bson) \<times> world" where
  "metadata_failed env w filename e =
     (Inl e, handle_error env w ''metadata_storage'' filename (str_of e))"

definition store_initial_metadata ::
  "env \<Rightarrow> world \<Rightarrow> string \<Rightarrow> string \<Rightarrow> (exn + bson) \<times> world" where
  "store_initial_metadata env w filename file_path =
     (case read_file env file_path of
        Inl e \<Rightarrow> metadata_failed env w filename e
      | Inr content \<Rightarrow>
          let file_hash = sha256_hex env content;
              file_size = int (length content);
              (upload_date, w1) = now w;
              (last_attempt, w2) = now w1;
              (last_updated, w3) = now w2;
              metadata = [(''filename'', BStr filename),
                          (''file_hash'', BStr file_hash),
                          (''file_size'', BInt file_size),
                          (''file_path'', BStr file_path),
                          (''upload_date'', BTime upload_date),
                          (''status'', BStr ''pending''),
                          (''processing_status'',
                             BDoc [(''stage'', BStr ''initial''),
                                   (''attempts'', BInt 0),
                                   (''last_attempt'', BTime last_attempt)]),
                          (''last_updated'', BTime last_updated)]
          in case db_fails env (UpsertDocument filename) of
               Some msg \<Rightarrow> metadata_failed env w3 filename (PyMongoError msg)
             | None \<Rightarrow>
                 let (docs, upserted_id) =
                       upsert_set_on_insert (documents w3) (next_oid w3)
                         ''filename'' (BStr filename) metadata;
                     w4 = w3\<lparr>documents := docs, next_oid := bump_oid upserted_id (next_oid w3)\<rparr>;
                     (timestamp, w5) = now w4
                 in case db_fails env (UpsertStatus filename) of
                      Some msg \<Rightarrow> metadata_failed env w5 filename (PyMongoError msg)
                    | None \<Rightarrow>
                        let (sts, status_id) =
                              upsert_set (processing_status w5) (next_oid w5)
                                ''filename'' (BStr filename)
                                [(''status'', BStr ''pending''), (''timestamp'', BTime timestamp)];
                            w6 = w5\<lparr>processing_status := sts,
                                    next_oid := bump_oid status_id (next_oid w5)\<rparr>
                        in case upserted_id of
                             Some oid \<Rightarrow> (Inr (BOid oid), w6)
                           | None \<Rightarrow>
                               (case db_fails env (FindDocument filename) of
                                  Some msg \<Rightarrow> metadata_failed env w6 filename (PyMongoError msg)
                                | None \<Rightarrow>
                                    (case find (matches ''filename'' (BStr filename)) (documents w6) of
                                       None \<Rightarrow>
                                         metadata_failed env w6 filename
                                           (TypeError ''not subscriptable'')
                                     | Some doc \<Rightarrow>
                                         (case map_of doc ''_id'' of
                                            None \<Rightarrow> metadata_failed env w6 filename (KeyError ''_id'')
                                          | Some doc_id \<Rightarrow> (Inr doc_id, w6)))))"


subsection \<open>\<open>store_processing_results\<close>\<close>

text \<open>\<open>len(x)\<close> raises a \<open>TypeError\<close> for a value that has no length.\<close>

fun py_len :: "bson \<Rightarrow> exn + nat" where
  "py_len (BStr s) = Inr (length s)"
| "py_len (BArr xs) = Inr (length xs)"
| "py_len (BDoc d) = Inr (length d)"
| "py_len v = Inl (TypeError ''object has no len()'')"

text \<open>
  The \<open>update_one\<close> call of \<open>store_processing_results\<close>: the server may fail, may find
  no document under that \<open>_id\<close> (then nothing changes), or may reject the update; the
  result is the message of the \<open>PyMongoError\<close> or the new collection.
\<close>

definition update_results ::
  "env \<Rightarrow> document list \<Rightarrow> bson \<Rightarrow> (string \<times> bson) list \<Rightarrow> bson \<Rightarrow> string + document list" where
  "update_results env coll doc_id kvs entry =
     (case db_fails env (UpdateDocument doc_id) of
        Some msg \<Rightarrow> Inl msg
      | None \<Rightarrow>
          (case find (matches ''_id'' doc_id) coll of
             None \<Rightarrow> Inr coll
           | Some doc \<Rightarrow>
               (case set_and_push env kvs ''processing_history'' entry doc of
                  None \<Rightarrow> Inl ''update rejected''
                | Some doc' \<Rightarrow> Inr (update_first (matches ''_id'' doc_id) (\<lambda>d. doc') coll))))"

text \<open>
  Only a \<open>PyMongoError\<close> is caught (recorded under \<open>results_storage\<close> with the document id
  in the place of the file name, then raised again); a \<open>TypeError\<close> of \<open>len\<close> passes
  through.
\<close>

definition store_processing_results ::
  "env \<Rightarrow> world \<Rightarrow> bson \<Rightarrow> document \<Rightarrow> (exn + unit) \<times> world" where
  "store_processing_results env w doc_id results =
     (let (last_updated, w1) = now w;
          enriched_results =
            set_fields results
              [(''processing_version'', BStr ''1.0''),
               (''last_updated'', BTime last_updated),
               (''status'', BStr ''completed'')];
          (timestamp, w2) = now w1
      in case py_len (dict_get results ''summary'' (BStr [])) of
           Inl e \<Rightarrow> (Inl e, w2)
         | Inr summary_length \<Rightarrow>
             (case py_len (dict_get results ''keywords'' (BArr [])) of
                Inl e \<Rightarrow> (Inl e, w2)
              | Inr keyword_count \<Rightarrow>
                  (let entry = BDoc [(''timestamp'', BTime timestamp),
                                     (''version'', BStr ''1.0''),
                                     (''summary_length'', BInt (int summary_length)),
                                     (''keyword_count'', BInt (int keyword_count))]
                   in case update_results env (documents w2) doc_id enriched_results entry of
                        Inl msg \<Rightarrow>
                          (Inl (PyMongoError msg),
                           handle_error env w2 ''results_storage'' (str_of_id env doc_id) msg)
                      | Inr docs \<Rightarrow> (Inr (), w2\<lparr>documents := docs\<rparr>))))"


section \<open>The processor (PDFProcessor)\<close>

text \<open>\<open>os.path.join\<close> of two components, on POSIX.\<close>

definition path_join :: "string \<Rightarrow> string \<Rightarrow> string" where
  "path_join a b =
     (if startswith b ''/'' then b
      else if a = [] \<or> endswith a ''/'' then a @ b
      else a @ ''/'' @ b)"

text \<open>The truth value Python gives a stored value in \<open>if doc_id:\<close>.\<close>

fun truthy :: "bson \<Rightarrow> bool" where
  "truthy BNull = False"
| "truthy (BBool b) = b"
| "truthy (BInt i) = (i \<noteq> 0)"
| "truthy (BStr s) = (s \<noteq> [])"
| "truthy (BTime t) = True"
| "truthy (BOid i) = True"
| "truthy (BArr xs) = (xs \<noteq> [])"
| "truthy (BDoc d) = (d \<noteq> [])"

definition bson_of_keyword :: "char keyword \<Rightarrow> bson" where
  "bson_of_keyword k = BDoc [(''word'', BStr (word k)), (''frequency'', BInt (frequency k))]"

text \<open>
  The \<open>except Exception\<close> clause of \<open>process_pdf\<close>: the error is recorded under
  \<open>processing\<close> when \<open>doc_id\<close> is set and true, and the function returns \<open>None\<close>.
\<close>

definition processing_failed ::
  "env \<Rightarrow> world \<Rightarrow> string \<Rightarrow> bson option \<Rightarrow> exn \<Rightarrow> (exn + document option) \<times> world" where
  "processing_failed env w filename doc_id e =
     (Inr None,
      case doc_id of
        None \<Rightarrow> w
      | Some i \<Rightarrow> if truthy i then handle_error env w ''processing'' filename (str_of e) else w)"

text \<open>
  \<open>process_pdf\<close>: \<open>read_pdf\<close> opens the file and gives the text of each page, or the
  exception that the opening, the parser or the extraction raised. The text is a
  \<open>string\<close>, as every string of a stored document is, and the keywords are extracted with
  the tables of that character range.
\<close>

definition process_pdf ::
  "env \<Rightarrow> world \<Rightarrow> string \<Rightarrow> string \<Rightarrow> (exn + document option) \<times> world" where
  "process_pdf env w input_dir filename =
     (let file_path = path_join input_dir filename
      in case store_initial_metadata env w filename file_path of
           (Inl e, w1) \<Rightarrow> processing_failed env w1 filename None e
         | (Inr doc_id, w1) \<Rightarrow>
             (case read_pdf env file_path of
                Inl e \<Rightarrow> processing_failed env w1 filename (Some doc_id) e
              | Inr pages \<Rightarrow>
                  (let text = concat (map (\<lambda>page. page @ [CHR 0x0A]) pages);
                       keywords = extract_keywords latin1 text default_max_keywords;
                       (processed_time, w2) = now w1;
                       processed_data =
                         [(''filename'', BStr filename),
                          (''summary'', BStr (take 500 text)),
                          (''keywords'', BArr (map bson_of_keyword keywords)),
                          (''metadata'',
                             BDoc [(''page_count'', BInt (int (length pages))),
                                   (''text_length'', BInt (int (length text))),
                                   (''processed_time'', BTime processed_time)])]
                   in case store_processing_results env w2 doc_id processed_data of
                        (Inl e, w3) \<Rightarrow> processing_failed env w3 filename (Some doc_id) e
                      | (Inr u, w3) \<Rightarrow> (Inr (Some processed_data), w3))))"

record tally =
  successful :: nat
  failed :: nat

text \<open>\<open>if result:\<close> on what \<open>process_pdf\<close> returned: \<open>None\<close> and the empty dictionary are false.\<close>

definition truthy_result :: "document option \<Rightarrow> bool" where
  "truthy_result r = (case r of None \<Rightarrow> False | Some d \<Rightarrow> d \<noteq> [])"

text \<open>The loop over \<open>pdf_files\<close>, with the two counters.\<close>

fun process_files :: "env \<Rightarrow> string \<Rightarrow> string list \<Rightarrow> tally \<Rightarrow> world \<Rightarrow> tally \<times> world" where
  "process_files env input_dir [] t w = (t, w)"
| "process_files env input_dir (filename # rest) t w =
     (case process_pdf env w input_dir filename of
        (Inr result, w') \<Rightarrow>
          process_files env input_dir rest
            (if truthy_result result then t\<lparr>successful := successful t + 1\<rparr>
             else t\<lparr>failed := failed t + 1\<rparr>) w'
      | (Inl e, w') \<Rightarrow> process_files env input_dir rest (t\<lparr>failed := failed t + 1\<rparr>) w')"

definition pdf_files_of :: "string list \<Rightarrow> string list" where
  "pdf_files_of names = filter (\<lambda>f. endswith (lower f) ''.pdf'') names"

text \<open>
  \<open>process_directory\<close> raises, returns \<open>None\<close> (the bare \<open>return\<close>), or returns the tally.
\<close>

definition process_directory :: "env \<Rightarrow> world \<Rightarrow> string \<Rightarrow> (exn + tally option) \<times> world" where
  "process_directory env w input_dir =
     (if \<not> path_exists env input_dir
      then (Inl (ValueError (''Input directory does not exist: '' @ input_dir)), w)
      else case listdir env input_dir of
             Inl e \<Rightarrow> (Inl e, w)
           | Inr names \<Rightarrow>
               (let pdf_files = pdf_files_of names
                in if pdf_files = [] then (Inr None, w)
                   else (let (t, w') = process_files env input_dir pdf_files
                                         \<lparr>successful = 0, failed = 0\<rparr> w
                         in (Inr (Some t), w'))))"


section \<open>Concrete environments and stores\<close>

definition empty_world :: world where
  "empty_world = \<lparr>documents = [], processing_status = [], errors = [], next_oid = 0, clock = 0\<rparr>"

text \<open>
  A directory with one readable, well-formed PDF and a server that answers. No update
  below has a path among its field names, so \<open>path_update\<close> is never consulted.
\<close>

definition healthy_env :: env where
  "healthy_env =
     \<lparr>path_exists = (\<lambda>p. True),
      listdir = (\<lambda>p. Inr [''a.pdf'']),
      read_file = (\<lambda>p. Inr ''%PDF-1.4''),
      sha256_hex = (\<lambda>content. ''c0ffee''),
      read_pdf = (\<lambda>p. Inr [''Alpha beta gamma alpha'']),
      str_of_id = (\<lambda>i. ''id''),
      db_fails = (\<lambda>op. None),
      path_update = (\<lambda>kvs field entry doc. None)\<rparr>"




text \<open>A directory that exists and holds no PDF file.\<close>

definition no_pdf_env :: env where
  "no_pdf_env = healthy_env\<lparr>listdir := (\<lambda>p. Inr [''notes.txt''])\<rparr>"

text \<open>No directory at all.\<close>

definition missing_dir_env :: env where
  "missing_dir_env = healthy_env\<lparr>path_exists := (\<lambda>p. False)\<rparr>"


section \<open>Reading the store\<close>

text \<open>The documents of a collection that the query \<open>{"filename": filename}\<close> selects.\<close>

definition named :: "string \<Rightarrow> document list \<Rightarrow> document list" where
  "named filename coll = filter (matches ''filename'' (BStr filename)) coll"

text \<open>Every document of a collection carries an \<open>_id\<close>, as the server guarantees.\<close>

definition has_ids :: "document list \<Rightarrow> bool" where
  "has_ids coll = list_all (\<lambda>doc. map_of doc ''_id'' \<noteq> None) coll"





section \<open>Properties of the downloaders\<close>

declare attempts.simps [simp del] simple_attempts.simps [simp del]

lemma range3: "[0..<max_retries] = [0, 1, 2]"
  by (simp add: max_retries_def upt_rec)

lemma gets_append: "gets (tr @ tr') = gets tr @ gets tr'"
  by (induction tr rule: gets.induct) auto

lemma sleeps_append: "sleeps (tr @ tr') = sleeps tr @ sleeps tr'"
  by (induction tr rule: sleeps.induct) auto

lemma attempts_gets:
  "list_all (\<lambda>p. snd p = (verify_ssl \<or> fst p < 2)) (gets tr) \<Longrightarrow>
   list_all (\<lambda>p. snd p = (verify_ssl \<or> fst p < 2)) (gets (snd (attempts net verify_ssl as tr)))"
proof (induction as arbitrary: tr)
  case Nil
  then show ?case by (simp add: attempts.simps)
next
  case (Cons a as)
  show ?case
  proof (cases "net a (verify_ssl \<or> a < 2)")
    case (GetFailed f)
    then show ?thesis
      using Cons.prems
      by (cases f) (simp_all add: attempts.simps simple_attempts.simps Let_def handle_failure_def max_retries_def gets_append Cons.IH)
  next
    case (Got ct saving)
    then show ?thesis
      using Cons.prems
      by (cases saving; cases "the saving")
         (simp_all add: attempts.simps simple_attempts.simps Let_def handle_failure_def max_retries_def gets_append Cons.IH)
  qed
qed

lemma attempts_no_FailedSSL:
  "\<forall>a \<in> set as. a < max_retries \<Longrightarrow> Print FailedSSL \<notin> set tr \<Longrightarrow>
   Print FailedSSL \<notin> set (snd (attempts net verify_ssl as tr))"
proof (induction as arbitrary: tr)
  case Nil
  then show ?case by (simp add: attempts.simps)
next
  case (Cons a as)
  have IH: "Print FailedSSL \<notin> set (snd (attempts net verify_ssl as tr'))"
    if "Print FailedSSL \<notin> set tr'" for tr'
    using Cons.IH [OF _ that] Cons.prems by simp
  have a: "a < 3" using Cons.prems by (simp add: max_retries_def)
  show ?case
  proof (cases "net a (verify_ssl \<or> a < 2)")
    case (GetFailed f)
    then show ?thesis
      using Cons.prems(2) a
      by (cases f) (simp_all add: attempts.simps simple_attempts.simps Let_def handle_failure_def max_retries_def IH)
  next
    case (Got ct saving)
    then show ?thesis
      using Cons.prems(2) a
      by (cases saving; cases "the saving")
         (simp_all add: attempts.simps simple_attempts.simps Let_def handle_failure_def max_retries_def IH)
  qed
qed


lemma simple_gets_append: "simple_gets (tr @ tr') = simple_gets tr @ simple_gets tr'"
  by (induction tr rule: simple_gets.induct) auto

lemma simple_sleeps_append: "simple_sleeps (tr @ tr') = simple_sleeps tr @ simple_sleeps tr'"
  by (induction tr rule: simple_sleeps.induct) auto

lemma simple_attempts_gets:
  "list_all (\<lambda>p. \<not> snd p) (simple_gets tr) \<Longrightarrow>
   list_all (\<lambda>p. \<not> snd p) (simple_gets (snd (simple_attempts net as tr)))"
proof (induction as arbitrary: tr)
  case Nil
  then show ?case by (simp add: simple_attempts.simps simple_gets_append)
next
  case (Cons a as)
  show ?case
  proof (cases "net a False")
    case (GetFailed f)
    then show ?thesis
      using Cons.prems
      by (cases f) (simp_all add: attempts.simps simple_attempts.simps Let_def simple_gets_append Cons.IH)
  next
    case (Got ct saving)
    then show ?thesis
      using Cons.prems
      by (cases saving; cases "the saving")
         (simp_all add: attempts.simps simple_attempts.simps Let_def simple_gets_append Cons.IH)
  qed
qed

lemma attempts_retry:
  assumes "a < 2" and "retryable (net a True)"
  shows "attempts net verify_ssl (a # as) tr =
         attempts net verify_ssl as
           (tr @ [Get a True, Print (retry_message (net a True) a), Sleep retry_delay])"
proof (cases "net a True")
  case (GetFailed f)
  then show ?thesis
    using assms
    by (cases f)
       (simp_all add: attempts.simps simple_attempts.simps retryable_def retry_message_def Let_def handle_failure_def max_retries_def)
next
  case (Got ct saving)
  then show ?thesis
    using assms
    by (cases saving; cases "the saving")
       (simp_all add: attempts.simps simple_attempts.simps retryable_def retry_message_def Let_def handle_failure_def max_retries_def)
qed

lemma attempts_last_gets:
  "gets (snd (attempts net verify_ssl [a] tr)) = gets tr @ [(a, verify_ssl \<or> a < 2)]"
proof (cases "net a (verify_ssl \<or> a < 2)")
  case (GetFailed f)
  then show ?thesis
    by (cases f) (simp_all add: attempts.simps simple_attempts.simps Let_def handle_failure_def max_retries_def gets_append)
next
  case (Got ct saving)
  then show ?thesis
    by (cases saving; cases "the saving")
       (simp_all add: attempts.simps simple_attempts.simps Let_def handle_failure_def max_retries_def gets_append)
qed

lemma attempts_last_RequestException:
  assumes "fails_with RequestException (net 2 verify_ssl)"
  shows "fst (attempts net verify_ssl [2] tr) = PyFalse \<and>
         sleeps (snd (attempts net verify_ssl [2] tr)) = sleeps tr"
proof (cases "net 2 verify_ssl")
  case (GetFailed f)
  then show ?thesis
    using assms by (simp add: attempts.simps Let_def handle_failure_def max_retries_def sleeps_append)
next
  case (Got ct saving)
  then show ?thesis
    using assms by (simp add: attempts.simps Let_def handle_failure_def max_retries_def sleeps_append)
qed

lemma attempts_last_SSLError:
  assumes "fails_with SSLError (net 2 verify_ssl)"
  shows "fst (attempts net verify_ssl [2] tr) = PyNone"
proof (cases "net 2 verify_ssl")
  case (GetFailed f)
  then show ?thesis
    using assms by (simp add: attempts.simps Let_def handle_failure_def max_retries_def)
next
  case (Got ct saving)
  then show ?thesis
    using assms by (simp add: attempts.simps Let_def handle_failure_def max_retries_def)
qed

lemma simple_attempts_retry:
  assumes "retryable (net a False)"
  shows "simple_attempts net (a # as) tr =
         simple_attempts net as (tr @ [SGet a False, SPrint (AttemptFailed (a + 1)), SSleep 2])"
proof (cases "net a False")
  case (GetFailed f)
  then show ?thesis
    using assms by (cases f) (simp_all add: attempts.simps simple_attempts.simps retryable_def Let_def)
next
  case (Got ct saving)
  then show ?thesis
    using assms by (cases saving; cases "the saving") (simp_all add: attempts.simps simple_attempts.simps retryable_def Let_def)
qed

text \<open>
  Claim C2. When every attempt ends in a transport error (a \<open>RequestException\<close> that is not
  an \<open>SSLError\<close>), \<open>download_pdf\<close> makes exactly three requests, pauses two time units
  after the first and after the second, and returns \<open>False\<close>; it raises nothing. The
  simpler downloader makes three requests as well, pauses two time units after each, and
  returns \<open>False\<close>.
\<close>

theorem download_pdf_transport_errors:
  assumes "\<forall>attempt verify. fails_with RequestException (net attempt verify)"
  shows "fst (download_pdf net verify_ssl) = PyFalse \<and>
         gets (snd (download_pdf net verify_ssl)) = [(0, True), (1, True), (2, verify_ssl)] \<and>
         sleeps (snd (download_pdf net verify_ssl)) = [2, 2] \<and>
         fst (download_pdf_simple net) = PyFalse \<and>
         simple_gets (snd (download_pdf_simple net)) = [(0, False), (1, False), (2, False)] \<and>
         simple_sleeps (snd (download_pdf_simple net)) = [2, 2, 2]"
proof -
  have r: "retryable (net a v)" for a v
    using assms by (simp add: retryable_def)
  have full: "download_pdf net verify_ssl = attempts net verify_ssl [2]
      [Get 0 True, Print (retry_message (net 0 True) 0), Sleep retry_delay,
       Get 1 True, Print (retry_message (net 1 True) 1), Sleep retry_delay]"
    by (simp add: download_pdf_def range3 attempts_retry r del: One_nat_def)
  have l: "fails_with RequestException (net 2 verify_ssl)"
    using assms by simp
  have simple: "download_pdf_simple net =
      (PyFalse, [SGet 0 False, SPrint (AttemptFailed 1), SSleep 2,
                 SGet 1 False, SPrint (AttemptFailed 2), SSleep 2,
                 SGet 2 False, SPrint (AttemptFailed 3), SSleep 2, SPrint FailedToDownload])"
    by (simp add: download_pdf_simple_def upt_rec simple_attempts_retry r simple_attempts.simps(1))
  show ?thesis
    using l attempts_last_RequestException [of net verify_ssl]
      attempts_last_gets [of net verify_ssl 2]
    by (simp add: full simple retry_delay_def)
qed

theorem download_pdf_transport_errors_witness:
  "(\<forall>attempt verify. fails_with RequestException (unreachable attempt verify)) \<and>
   download_pdf unreachable True =
     (PyFalse, [Get 0 True, Print (AttemptFailedRetrying 1), Sleep 2,
                Get 1 True, Print (AttemptFailedRetrying 2), Sleep 2,
                Get 2 True, Print FailedAfter]) \<and>
   fst (download_pdf_simple unreachable) = PyFalse"
proof -
  have h: "\<forall>attempt verify. fails_with RequestException (unreachable attempt verify)"
    by (simp add: unreachable_def)
  have "download_pdf unreachable True =
     (PyFalse, [Get 0 True, Print (AttemptFailedRetrying 1), Sleep 2,
                Get 1 True, Print (AttemptFailedRetrying 2), Sleep 2,
                Get 2 True, Print FailedAfter])"
    by code_simp
  then show ?thesis
    using h download_pdf_transport_errors [OF h, of True] by simp
qed


lemma download_pdf_after_two_retries:
  assumes "retryable (net 0 True)" and "retryable (net 1 True)"
  shows "download_pdf net verify_ssl = attempts net verify_ssl [2]
      [Get 0 True, Print (retry_message (net 0 True) 0), Sleep retry_delay,
       Get 1 True, Print (retry_message (net 1 True) 1), Sleep retry_delay]"
  using assms by (simp add: download_pdf_def range3 attempts_retry del: One_nat_def)

lemma attempts_extends:
  "\<exists>rest. gets (snd (attempts net verify_ssl as tr)) = gets tr @ rest"
proof (induction as arbitrary: tr)
  case Nil
  then show ?case by (simp add: attempts.simps)
next
  case (Cons a as)
  have IH: "\<exists>rest. gets (snd (attempts net verify_ssl as (tr @ tr'))) = gets tr @ rest" for tr'
    using Cons.IH [of "tr @ tr'"] by (auto simp: gets_append)
  show ?case
  proof (cases "net a (verify_ssl \<or> a < max_retries - 1)")
    case (GetFailed f)
    then show ?thesis
      using IH [of "[Get a (verify_ssl \<or> a < max_retries - 1), Print (SSLErrorRetrying (a + 1)), Sleep retry_delay]"]
        IH [of "[Get a (verify_ssl \<or> a < max_retries - 1), Print AttemptingWithoutSSL]"]
        IH [of "[Get a (verify_ssl \<or> a < max_retries - 1), Print (AttemptFailedRetrying (a + 1)), Sleep retry_delay]"]
      by (cases f) (auto simp: attempts.simps Let_def handle_failure_def gets_append)
  next
    case (Got ct saving)
    show ?thesis
    proof (cases saving)
      case None
      then show ?thesis using Got by (simp add: attempts.simps Let_def gets_append)
    next
      case (Some f)
      then show ?thesis
        using Got
          IH [of "[Get a (verify_ssl \<or> a < max_retries - 1), Print (SSLErrorRetrying (a + 1)), Sleep retry_delay]"]
          IH [of "[Get a (verify_ssl \<or> a < max_retries - 1), Print AttemptingWithoutSSL]"]
          IH [of "[Get a (verify_ssl \<or> a < max_retries - 1), Print (AttemptFailedRetrying (a + 1)), Sleep retry_delay]"]
          IH [of "[Get a (verify_ssl \<or> a < max_retries - 1), Print WarnContentType, Print (SSLErrorRetrying (a + 1)), Sleep retry_delay]"]
          IH [of "[Get a (verify_ssl \<or> a < max_retries - 1), Print WarnContentType, Print AttemptingWithoutSSL]"]
          IH [of "[Get a (verify_ssl \<or> a < max_retries - 1), Print WarnContentType, Print (AttemptFailedRetrying (a + 1)), Sleep retry_delay]"]
        by (cases f) (auto simp: attempts.simps Let_def handle_failure_def gets_append)
    qed
  qed
qed

lemma simple_attempts_extends:
  "\<exists>rest. simple_gets (snd (simple_attempts net as tr)) = simple_gets tr @ rest"
proof (induction as arbitrary: tr)
  case Nil
  then show ?case by (simp add: simple_attempts.simps simple_gets_append)
next
  case (Cons a as)
  have IH: "\<exists>rest. simple_gets (snd (simple_attempts net as (tr @ tr'))) = simple_gets tr @ rest" for tr'
    using Cons.IH [of "tr @ tr'"] by (auto simp: simple_gets_append)
  show ?case
  proof (cases "net a False")
    case (GetFailed f)
    then show ?thesis
      using IH [of "[SGet a False, SPrint (AttemptFailed (a + 1)), SSleep 2]"]
      by (cases f) (auto simp: simple_attempts.simps Let_def simple_gets_append)
  next
    case (Got ct saving)
    then show ?thesis
      using IH [of "[SGet a False, SPrint (AttemptFailed (a + 1)), SSleep 2]"]
      by (cases saving; cases "the saving") (auto simp: simple_attempts.simps Let_def simple_gets_append)
  qed
qed

lemma attempts_first:
  assumes "a < max_retries - 1"
  shows "\<exists>rest. gets (snd (attempts net verify_ssl (a # as) tr)) = gets tr @ (a, True) # rest"
proof -
  have ext: "\<exists>rest. gets (snd (attempts net verify_ssl as (tr @ Get a True # tr'))) =
      gets tr @ (a, True) # rest" for tr'
    using attempts_extends [of net verify_ssl as "tr @ Get a True # tr'"]
    by (auto simp: gets_append)
  show ?thesis
  proof (cases "net a True")
    case (GetFailed f)
    then show ?thesis
      using assms ext [of "[Print (SSLErrorRetrying (a + 1)), Sleep retry_delay]"]
        ext [of "[Print (AttemptFailedRetrying (a + 1)), Sleep retry_delay]"]
      by (cases f) (auto simp: attempts.simps Let_def handle_failure_def gets_append)
  next
    case (Got ct saving)
    then show ?thesis
      using assms ext [of "[Print (SSLErrorRetrying (a + 1)), Sleep retry_delay]"]
        ext [of "[Print (AttemptFailedRetrying (a + 1)), Sleep retry_delay]"]
      by (cases saving; cases "the saving")
         (auto simp: attempts.simps Let_def handle_failure_def gets_append)
  qed
qed

lemma simple_attempts_first:
  "\<exists>rest. simple_gets (snd (simple_attempts net (a # as) tr)) = simple_gets tr @ (a, False) # rest"
proof -
  have ext: "\<exists>rest. simple_gets (snd (simple_attempts net as (tr @ SGet a False # tr'))) =
      simple_gets tr @ (a, False) # rest" for tr'
    using simple_attempts_extends [of net as "tr @ SGet a False # tr'"]
    by (auto simp: simple_gets_append)
  show ?thesis
  proof (cases "net a False")
    case (GetFailed f)
    then show ?thesis
      using ext [of "[SPrint (AttemptFailed (a + 1)), SSleep 2]"]
      by (cases f) (auto simp: simple_attempts.simps Let_def simple_gets_append)
  next
    case (Got ct saving)
    then show ?thesis
      using ext [of "[SPrint (AttemptFailed (a + 1)), SSleep 2]"]
      by (cases saving; cases "the saving")
         (auto simp: simple_attempts.simps Let_def simple_gets_append)
  qed
qed

text \<open>
  Claim C1, amended. In the \<open>download_pdf\<close> of \<open>pdf-downloader.py\<close> every call makes its
  first request with certificate verification on and every request before the third
  verifies, so that a request without verification can only be the third one; and when
  the caller passed \<open>verify_ssl=False\<close> and the first two attempts fail with certificate
  errors, the third request is made without verification. The \<open>download_pdf\<close> of
  \<open>pdf_downloader.py\<close> makes every request, the first included, without verification.
\<close>

theorem download_pdf_verification:
  "(\<exists>rest. gets (snd (download_pdf net verify_ssl)) = (0, True) # rest) \<and>
   (\<forall>(attempt, verify) \<in> set (gets (snd (download_pdf net verify_ssl))).
      attempt < max_retries - 1 \<longrightarrow> verify) \<and>
   (fails_with SSLError (net 0 True) \<and> fails_with SSLError (net 1 True) \<longrightarrow>
      gets (snd (download_pdf net False)) = [(0, True), (1, True), (2, False)]) \<and>
   (\<exists>rest. simple_gets (snd (download_pdf_simple net)) = (0, False) # rest) \<and>
   (\<forall>(attempt, verify) \<in> set (simple_gets (snd (download_pdf_simple net))). \<not> verify)"
proof (intro conjI impI)
  show "\<exists>rest. gets (snd (download_pdf net verify_ssl)) = (0, True) # rest"
  proof -
    have "(0::nat) < max_retries - 1" by (simp add: max_retries_def)
    then show ?thesis
      using attempts_first [of 0 net verify_ssl "[1, 2]" "[]"]
      by (simp add: download_pdf_def range3 del: One_nat_def)
  qed
next
  have "list_all (\<lambda>p. snd p = (verify_ssl \<or> fst p < 2)) (gets (snd (download_pdf net verify_ssl)))"
    unfolding download_pdf_def by (rule attempts_gets) simp
  then show "\<forall>(attempt, verify) \<in> set (gets (snd (download_pdf net verify_ssl))).
      attempt < max_retries - 1 \<longrightarrow> verify"
    by (auto simp: list_all_iff max_retries_def)
next
  assume "fails_with SSLError (net 0 True) \<and> fails_with SSLError (net 1 True)"
  then have "retryable (net 0 True)" and "retryable (net 1 True)"
    by (simp_all add: retryable_def)
  then show "gets (snd (download_pdf net False)) = [(0, True), (1, True), (2, False)]"
    by (simp add: download_pdf_after_two_retries attempts_last_gets)
next
  show "\<exists>rest. simple_gets (snd (download_pdf_simple net)) = (0, False) # rest"
    using simple_attempts_first [of net 0 "[Suc 0, Suc (Suc 0)]" "[]"]
    by (simp add: download_pdf_simple_def upt_rec)
next
  have "list_all (\<lambda>p. \<not> snd p) (simple_gets (snd (download_pdf_simple net)))"
    unfolding download_pdf_simple_def by (rule simple_attempts_gets) simp
  then show "\<forall>(attempt, verify) \<in> set (simple_gets (snd (download_pdf_simple net))). \<not> verify"
    by (auto simp: list_all_iff)
qed

theorem download_pdf_verification_witness:
  "fails_with SSLError (bad_certificate 0 True) \<and> fails_with SSLError (bad_certificate 1 True) \<and>
   gets (snd (download_pdf bad_certificate False)) = [(0, True), (1, True), (2, False)] \<and>
   fst (download_pdf bad_certificate False) = PyTrue \<and>
   simple_gets (snd (download_pdf_simple unreachable)) = [(0, False), (1, False), (2, False)]"
proof -
  have h: "fails_with SSLError (bad_certificate 0 True) \<and> fails_with SSLError (bad_certificate 1 True)"
    by (simp add: bad_certificate_def)
  have r: "fst (download_pdf bad_certificate False) = PyTrue"
    by code_simp
  have s: "simple_gets (snd (download_pdf_simple unreachable)) = [(0, False), (1, False), (2, False)]"
    by code_simp
  show ?thesis
    using h r s download_pdf_verification [of bad_certificate False] by simp
qed

text \<open>
  Claim C1 as stated fails for the \<open>download_pdf\<close> of \<open>pdf_downloader.py\<close>, whose requests
  carry \<open>verify=False\<close>: against a server whose certificate does not validate, its first
  attempt, which no certificate failure precedes, is made without verification, and it
  succeeds.
\<close>

theorem download_pdf_verification_counterexample:
  "download_pdf_simple bad_certificate = (PyTrue, [SGet 0 False, SSaved, SPrint Downloaded]) \<and>
   simple_gets (snd (download_pdf_simple bad_certificate)) = [(0, False)]"
  by code_simp

text \<open>
  Claim C9. When the third attempt ends in an \<open>SSLError\<close>, the handler's \<open>continue\<close>
  leaves the exhausted loop and the function returns \<open>None\<close>, neither \<open>True\<close> nor
  \<open>False\<close>. The branch that prints the SSL failure and returns \<open>False\<close> is never taken,
  whatever the network does.
\<close>

theorem download_pdf_ssl_last_attempt:
  "(retryable (net 0 True) \<and> retryable (net 1 True) \<and> fails_with SSLError (net 2 verify_ssl) \<longrightarrow>
      fst (download_pdf net verify_ssl) = PyNone) \<and>
   Print FailedSSL \<notin> set (snd (download_pdf net verify_ssl))"
proof (intro conjI impI)
  assume "retryable (net 0 True) \<and> retryable (net 1 True) \<and> fails_with SSLError (net 2 verify_ssl)"
  then show "fst (download_pdf net verify_ssl) = PyNone"
    by (simp add: download_pdf_after_two_retries attempts_last_SSLError)
next
  show "Print FailedSSL \<notin> set (snd (download_pdf net verify_ssl))"
    unfolding download_pdf_def by (rule attempts_no_FailedSSL) (simp_all add: max_retries_def)
qed

theorem download_pdf_ssl_last_attempt_witness:
  "retryable (bad_certificate 0 True) \<and> retryable (bad_certificate 1 True) \<and>
   fails_with SSLError (bad_certificate 2 True) \<and>
   fst (download_pdf bad_certificate True) = PyNone \<and>
   fst (download_pdf bad_certificate True) \<noteq> PyTrue \<and>
   fst (download_pdf bad_certificate True) \<noteq> PyFalse \<and>
   Print FailedSSL \<notin> set (snd (download_pdf bad_certificate True))"
proof -
  have h: "retryable (bad_certificate 0 True) \<and> retryable (bad_certificate 1 True) \<and>
      fails_with SSLError (bad_certificate 2 True)"
    by (simp add: bad_certificate_def retryable_def)
  show ?thesis
    using h download_pdf_ssl_last_attempt [of bad_certificate True] by simp
qed

text \<open>
  Claim C8, amended. A transfer that succeeds with a declared content type that does not
  mention \<open>pdf\<close> still returns \<open>True\<close>; the warning is printed exactly when the success
  comes on the third attempt.
\<close>

theorem download_pdf_content_type_warning:
  assumes "attempt < max_retries"
    and "\<forall>k < attempt. retryable (net k True)"
    and "net attempt (verify_ssl \<or> attempt < max_retries - 1) = Got content_type None"
    and "\<not> contains (lower content_type) ''pdf''"
  shows "fst (download_pdf net verify_ssl) = PyTrue \<and>
         (Print WarnContentType \<in> set (snd (download_pdf net verify_ssl)) \<longleftrightarrow>
            attempt = max_retries - 1)"
proof -
  consider "attempt = 0" | "attempt = 1" | "attempt = 2"
    using assms(1) by (auto simp: max_retries_def numeral_3_eq_3 less_Suc_eq)
  then show ?thesis
  proof cases
    case 1
    have "download_pdf net verify_ssl = attempts net verify_ssl [0, 1, 2] []"
      by (simp add: download_pdf_def range3)
    then show ?thesis
      using 1 assms(3,4)
      by (simp add: attempts.simps Let_def max_retries_def)
  next
    case 2
    then have "retryable (net 0 True)" using assms(2) by simp
    then have "download_pdf net verify_ssl = attempts net verify_ssl [1, 2]
        [Get 0 True, Print (retry_message (net 0 True) 0), Sleep retry_delay]"
      by (simp add: download_pdf_def range3 attempts_retry del: One_nat_def)
    then show ?thesis
      using 2 assms(3,4)
      by (simp add: attempts.simps Let_def max_retries_def retry_message_def)
  next
    case 3
    then have "retryable (net 0 True)" and "retryable (net 1 True)"
      using assms(2) by simp_all
    then show ?thesis
      using 3 assms(3,4)
      by (simp add: download_pdf_after_two_retries attempts.simps Let_def max_retries_def
          retry_message_def)
  qed
qed

theorem download_pdf_content_type_warning_witness:
  "(2::nat) < max_retries \<and>
   retryable (flaky_web_page 0 True) \<and> retryable (flaky_web_page 1 True) \<and>
   flaky_web_page 2 (True \<or> 2 < max_retries - 1) = Got ''text/html'' None \<and>
   \<not> contains (lower ''text/html'') ''pdf'' \<and>
   fst (download_pdf flaky_web_page True) = PyTrue \<and>
   Print WarnContentType \<in> set (snd (download_pdf flaky_web_page True))"
proof -
  have a: "(2::nat) < max_retries" by (simp add: max_retries_def)
  have b: "\<forall>k < 2. retryable (flaky_web_page k True)"
    by (simp add: flaky_web_page_def retryable_def)
  have c: "flaky_web_page 2 (True \<or> 2 < max_retries - 1) = Got ''text/html'' None"
    by (simp add: flaky_web_page_def)
  have d: "\<not> contains (lower ''text/html'') ''pdf''" by code_simp
  have e: "retryable (flaky_web_page 0 True) \<and> retryable (flaky_web_page 1 True)"
    by (simp add: flaky_web_page_def retryable_def)
  show ?thesis
    using a c d e download_pdf_content_type_warning [OF a b c d]
    by (simp add: max_retries_def)
qed

text \<open>
  Claim C8 as stated fails: a web page served at the first attempt is saved with no
  warning at all.
\<close>

theorem download_pdf_content_type_warning_counterexample:
  "web_page 0 True = Got ''text/html'' None \<and> \<not> contains (lower ''text/html'') ''pdf'' \<and>
   download_pdf web_page True = (PyTrue, [Get 0 True, Saved, Print Successfully]) \<and>
   Print WarnContentType \<notin> set (snd (download_pdf web_page True))"
  by code_simp


section \<open>Properties of keyword extraction\<close>

lemma sorted_reverse_eq: "sorted_reverse key xs = sort_key (\<lambda>x. - key x) xs"
  unfolding sorted_reverse_def
proof (rule properties_for_sort_key [symmetric])
  show "mset (rev (sort_key key (rev xs))) = mset xs" by simp
next
  fix k
  have "filter (\<lambda>x. key x = key k) (sort_key key (rev xs)) = filter (\<lambda>x. key x = key k) (rev xs)"
    by (rule sort_key_stable)
  then have "rev (filter (\<lambda>x. key x = key k) (sort_key key (rev xs))) = filter (\<lambda>x. key x = key k) xs"
    by (simp add: rev_filter)
  then show "filter (\<lambda>x. - key k = - key x) (rev (sort_key key (rev xs))) =
        filter (\<lambda>x. - key k = - key x) xs"
    by (simp add: rev_filter eq_commute)
next
  have "sorted (map key (sort_key key (rev xs)))" by simp
  then show "sorted (map (\<lambda>x. - key x) (rev (sort_key key (rev xs))))"
    by (simp add: rev_map [symmetric] sorted_wrt_rev sorted_wrt_map)
qed


lemma first_seen_cong: "set seen = set seen' \<Longrightarrow> first_seen seen xs = first_seen seen' xs"
proof (induction xs arbitrary: seen seen')
  case Nil
  then show ?case by simp
next
  case (Cons x xs)
  have "first_seen (x # seen) xs = first_seen (x # seen') xs"
    by (rule Cons.IH) (simp add: Cons.prems)
  then show ?case using Cons.prems Cons.IH [of seen seen'] by simp
qed

lemma set_first_seen: "set (first_seen seen xs) = set xs - set seen"
  by (induction xs arbitrary: seen) auto

lemma first_seen_subset: "x \<in> set (first_seen seen xs) \<Longrightarrow> x \<notin> set seen \<and> x \<in> set xs"
  by (simp add: set_first_seen)

lemma dict_set_absent: "k \<notin> fst ` set d \<Longrightarrow> dict_set d k v = d @ [(k, v)]"
  by (induction d) auto

lemma dict_get_absent: "k \<notin> fst ` set d \<Longrightarrow> dict_get d k dflt = dflt"
proof -
  assume "k \<notin> fst ` set d"
  then have "map_of d k = None" by (simp add: map_of_eq_None_iff)
  then show ?thesis by (simp add: dict_get_def)
qed

lemma dict_bump_present:
  "k \<in> fst ` set d \<Longrightarrow>  distinct (map fst d) \<Longrightarrow>
   dict_set d k (dict_get d k 0 + 1) = map (\<lambda>(k', c). (k', if k' = k then c + 1 else c)) d"
proof (induction d)
  case Nil
  then show ?case by simp
next
  case (Cons p d)
  obtain k' c where p: "p = (k', c)" by (cases p)
  show ?case
  proof (cases "k' = k")
    case True
    then have "k \<notin> fst ` set d" using Cons.prems(2) p by auto
    then have "map (\<lambda>(k', c). (k', if k' = k then c + 1 else c)) d = d"
      by (induction d) auto
    then show ?thesis using True p by (simp add: dict_get_def)
  next
    case False
    then have "k \<in> fst ` set d" using Cons.prems(1) p by auto
    then have "dict_set d k (dict_get d k 0 + 1) = map (\<lambda>(k', c). (k', if k' = k then c + 1 else c)) d"
      using Cons.IH Cons.prems(2) by simp
    then show ?thesis using False p by (simp add: dict_get_def)
  qed
qed

lemma count_words_eq:
  assumes "distinct (map fst d)"
  shows "count_words ws d =
     map (\<lambda>(k, c). (k, c + int (count_list (filter (\<lambda>w. 3 < length w) ws) k))) d @
     map (\<lambda>w. (w, int (count_list (filter (\<lambda>w. 3 < length w) ws) w)))
       (first_seen (map fst d) (filter (\<lambda>w. 3 < length w) ws))"
  using assms
proof (induction ws arbitrary: d)
  case Nil
  then show ?case by (simp add: case_prod_beta)
next
  case (Cons w ws)
  let ?toks = "filter (\<lambda>w. 3 < length w) ws"
  show ?case
  proof (cases "3 < length w")
    case False
    then show ?thesis using Cons.IH [OF Cons.prems] by simp
  next
    case long: True
    show ?thesis
    proof (cases "w \<in> fst ` set d")
      case True
      let ?d' = "map (\<lambda>(k', c). (k', if k' = w then c + 1 else c)) d"
      have d': "dict_set d w (dict_get d w 0 + 1) = ?d'"
        using True Cons.prems by (rule dict_bump_present)
      have keys: "map fst ?d' = map fst d" by (simp add: case_prod_beta comp_def)
      have dist: "distinct (map fst ?d')" using Cons.prems by (simp only: keys)
      have tail: "map (\<lambda>v. (v, int (count_list ?toks v))) (first_seen (map fst d) ?toks) =
            map (\<lambda>v. (v, int (count_list (w # ?toks) v))) (first_seen (map fst d) ?toks)"
        using True by (force dest!: first_seen_subset)
      have "count_words (w # ws) d = count_words ws ?d'"
        using long d' by simp
      also have "\<dots> = map (\<lambda>(k, c). (k, c + int (count_list ?toks k))) ?d' @
            map (\<lambda>v. (v, int (count_list ?toks v))) (first_seen (map fst d) ?toks)"
        by (rule Cons.IH [OF dist, unfolded keys])
      also have "map (\<lambda>(k, c). (k, c + int (count_list ?toks k))) ?d' =
            map (\<lambda>(k, c). (k, c + int (count_list (w # ?toks) k))) d"
        by (auto simp: case_prod_beta)
      finally show ?thesis using long True tail by simp
    next
      case False
      let ?d' = "d @ [(w, 1)]"
      have d': "dict_set d w (dict_get d w 0 + 1) = ?d'"
        using False by (simp add: dict_set_absent dict_get_absent)
      have dist: "distinct (map fst ?d')" using Cons.prems False by simp
      have seen: "first_seen (map fst ?d') ?toks = first_seen (w # map fst d) ?toks"
        by (rule first_seen_cong) auto
      have tail: "map (\<lambda>v. (v, int (count_list ?toks v))) (first_seen (w # map fst d) ?toks) =
            map (\<lambda>v. (v, int (count_list (w # ?toks) v))) (first_seen (w # map fst d) ?toks)"
        by (auto dest!: first_seen_subset)
      have head: "map (\<lambda>(k, c). (k, c + int (count_list ?toks k))) d =
            map (\<lambda>(k, c). (k, c + int (count_list (w # ?toks) k))) d"
        using False by (force simp: case_prod_beta)
      have "count_words (w # ws) d = count_words ws ?d'"
        using long d' by simp
      also have "\<dots> = map (\<lambda>(k, c). (k, c + int (count_list ?toks k))) ?d' @
            map (\<lambda>v. (v, int (count_list ?toks v))) (first_seen (map fst ?d') ?toks)"
        using Cons.IH [OF dist] by simp
      finally show ?thesis using long False tail head seen by simp
    qed
  qed
qed


lemma count_words_empty:
  "count_words ws [] =
     map (\<lambda>w. (w, int (count_list (filter (\<lambda>w. 3 < length w) ws) w)))
       (first_seen [] (filter (\<lambda>w. 3 < length w) ws))"
  using count_words_eq [of "[]" ws] by simp

lemma slice_to_nonneg: "0 \<le> k \<Longrightarrow> slice_to k xs = take (nat k) xs"
  by (simp add: slice_to_def)

lemma neg_snd: "(\<lambda>(w, c). - c) = (\<lambda>x. - snd x)"
  by (rule ext) (simp add: case_prod_beta)

text \<open>
  Claim C5, amended. For every text, whatever its characters and whatever Python's
  Unicode tables say about them, and for every \<open>max_keywords\<close> that is not negative,
  \<open>_extract_keywords\<close> returns what the specification's algorithm returns: the tokens of
  the lowercased text longer than 3 characters, counted, sorted by frequency descending
  with ties in first-occurrence order, truncated to \<open>max_keywords\<close> entries. The result
  has at most \<open>max_keywords\<close> entries and every returned word is longer than 3
  characters. Being a function of the text and the bound, the result is deterministic.
\<close>

theorem extract_keywords_rank:
  assumes "0 \<le> max_keywords"
  shows "extract_keywords u text max_keywords = rank_spec u text max_keywords \<and>
         int (length (extract_keywords u text max_keywords)) \<le> max_keywords \<and>
         (\<forall>kw \<in> set (extract_keywords u text max_keywords). 3 < length (word kw))"
proof (intro conjI ballI)
  let ?tokens = "filter (\<lambda>w. 3 < length w) (py_split u (str_lower u text))"
  let ?counted = "map (\<lambda>w. (w, int (count_list ?tokens w))) (first_seen [] ?tokens)"
  have code: "extract_keywords u text max_keywords =
      map (\<lambda>(w, freq). \<lparr>word = w, frequency = freq\<rparr>)
        (take (nat max_keywords) (sort_key (\<lambda>x. - snd x) ?counted))"
    using assms
    by (simp add: extract_keywords_def Let_def count_words_empty sorted_reverse_eq slice_to_nonneg)
  show "extract_keywords u text max_keywords = rank_spec u text max_keywords"
    by (simp add: code rank_spec_def Let_def neg_snd)
  show "int (length (extract_keywords u text max_keywords)) \<le> max_keywords"
    using assms by (simp add: code)
  fix kw
  assume "kw \<in> set (extract_keywords u text max_keywords)"
  then obtain p where p: "p \<in> set (take (nat max_keywords) (sort_key (\<lambda>x. - snd x) ?counted))"
    and kw: "kw = \<lparr>word = fst p, frequency = snd p\<rparr>"
    by (auto simp: code)
  from p have "p \<in> set ?counted"
    using set_take_subset [of "nat max_keywords" "sort_key (\<lambda>x. - snd x) ?counted"] by auto
  then have "fst p \<in> set (first_seen [] ?tokens)" by auto
  then have "fst p \<in> set ?tokens" by (simp add: set_first_seen)
  then show "3 < length (word kw)" using kw by simp
qed

text \<open>
  An instance on a text with capital letters, the accented capital U+00C9 and the
  no-break space U+00A0, with the bound 2.
\<close>

theorem extract_keywords_rank_witness:
  "(0::int) \<le> 2 \<and>
   extract_keywords latin1
     (''CAF'' @ [CHR 0xC9] @ ''S'' @ [CHR 0xA0] @ ''caf'' @ [CHR 0xE9] @ ''s tea Teas teas'') 2 =
     rank_spec latin1
       (''CAF'' @ [CHR 0xC9] @ ''S'' @ [CHR 0xA0] @ ''caf'' @ [CHR 0xE9] @ ''s tea Teas teas'') 2 \<and>
   extract_keywords latin1
     (''CAF'' @ [CHR 0xC9] @ ''S'' @ [CHR 0xA0] @ ''caf'' @ [CHR 0xE9] @ ''s tea Teas teas'') 2 =
     [\<lparr>word = ''caf'' @ [CHR 0xE9] @ ''s'', frequency = 2\<rparr>, \<lparr>word = ''teas'', frequency = 2\<rparr>]"
proof -
  have h: "(0::int) \<le> 2" by simp
  have v: "extract_keywords latin1
     (''CAF'' @ [CHR 0xC9] @ ''S'' @ [CHR 0xA0] @ ''caf'' @ [CHR 0xE9] @ ''s tea Teas teas'') 2 =
     [\<lparr>word = ''caf'' @ [CHR 0xE9] @ ''s'', frequency = 2\<rparr>, \<lparr>word = ''teas'', frequency = 2\<rparr>]"
    by code_simp
  show ?thesis
    using h v extract_keywords_rank [OF h, of latin1
        "''CAF'' @ [CHR 0xC9] @ ''S'' @ [CHR 0xA0] @ ''caf'' @ [CHR 0xE9] @ ''s tea Teas teas''"]
    by simp
qed

text \<open>
  Claim C5 as stated, for every \<open>max_keywords\<close>, fails on a negative bound: the slice
  \<open>[:-1]\<close> drops the last entry only, so the result is longer than \<open>max_keywords\<close> and is
  not the truncation to \<open>max_keywords\<close> entries.
\<close>

theorem extract_keywords_rank_counterexample:
  "extract_keywords latin1 ''aaaa bbbb'' (- 1) = [\<lparr>word = ''aaaa'', frequency = 1\<rparr>] \<and>
   \<not> int (length (extract_keywords latin1 ''aaaa bbbb'' (- 1))) \<le> - 1 \<and>
   extract_keywords latin1 ''aaaa bbbb'' (- 1) \<noteq> rank_spec latin1 ''aaaa bbbb'' (- 1)"
  by code_simp


section \<open>Properties of the processor\<close>

text \<open>
  Claim C10. For a path that does not exist, \<open>process_directory\<close> raises a \<open>ValueError\<close>
  instead of returning a tally, before anything is processed: the store is unchanged.
\<close>

theorem process_directory_missing:
  assumes "\<not> path_exists env input_dir"
  shows "process_directory env w input_dir =
           (Inl (ValueError (''Input directory does not exist: '' @ input_dir)), w)"
  using assms by (simp add: process_directory_def)

theorem process_directory_missing_witness:
  "\<not> path_exists missing_dir_env ''pdf_downloads'' \<and>
   process_directory missing_dir_env empty_world ''pdf_downloads'' =
     (Inl (ValueError ''Input directory does not exist: pdf_downloads''), empty_world)"
proof -
  have h: "\<not> path_exists missing_dir_env ''pdf_downloads''"
    by (simp add: missing_dir_env_def healthy_env_def)
  show ?thesis
    using h process_directory_missing [OF h, of empty_world] by simp
qed

text \<open>
  Claim C7, amended. For a directory that exists and contains no PDF file,
  \<open>process_directory\<close> raises nothing and returns \<open>None\<close>, the value of its bare
  \<open>return\<close>, not a tally; the store is as it was.
\<close>

theorem process_directory_no_pdf:
  assumes "path_exists env input_dir"
    and "listdir env input_dir = Inr names"
    and "pdf_files_of names = []"
  shows "process_directory env w input_dir = (Inr None, w)"
  using assms by (simp add: process_directory_def)

theorem process_directory_no_pdf_witness:
  "path_exists no_pdf_env ''pdf_downloads'' \<and>
   listdir no_pdf_env ''pdf_downloads'' = Inr [''notes.txt''] \<and>
   pdf_files_of [''notes.txt''] = [] \<and>
   process_directory no_pdf_env empty_world ''pdf_downloads'' = (Inr None, empty_world)"
proof -
  have a: "path_exists no_pdf_env ''pdf_downloads''"
    by (simp add: no_pdf_env_def healthy_env_def)
  have b: "listdir no_pdf_env ''pdf_downloads'' = Inr [''notes.txt'']"
    by (simp add: no_pdf_env_def healthy_env_def)
  have c: "pdf_files_of [''notes.txt''] = []"
    by code_simp
  show ?thesis
    using a b c process_directory_no_pdf [OF a b c, of empty_world] by simp
qed

text \<open>
  Claim C7 as stated fails: on a directory holding only \<open>notes.txt\<close> the result is
  \<open>None\<close>, not the tally of zero successes and zero failures.
\<close>

theorem process_directory_no_pdf_counterexample:
  "path_exists no_pdf_env ''pdf_downloads'' \<and>
   listdir no_pdf_env ''pdf_downloads'' = Inr [''notes.txt''] \<and>
   pdf_files_of [''notes.txt''] = [] \<and>
   fst (process_directory no_pdf_env empty_world ''pdf_downloads'') = Inr None \<and>
   fst (process_directory no_pdf_env empty_world ''pdf_downloads'') \<noteq>
     Inr (Some \<lparr>successful = 0, failed = 0\<rparr>)"
  by code_simp


section \<open>Properties of the document store\<close>

lemma map_of_dict_set: "map_of (dict_set d k v) = (map_of d)(k \<mapsto> v)"
  by (induction d) (auto simp: fun_eq_iff)

lemma map_of_set_fields_other:
  "k \<notin> fst ` set kvs \<Longrightarrow> map_of (set_fields d kvs) k = map_of d k"
  by (induction d kvs rule: set_fields.induct) (auto simp: map_of_dict_set)

lemma matches_set_fields:
  "field \<notin> fst ` set kvs \<Longrightarrow> matches field v (set_fields d kvs) = matches field v d"
  by (simp add: matches_def map_of_set_fields_other)

lemma find_update_first:
  "(\<And>x. p x \<Longrightarrow> p (f x)) \<Longrightarrow> find p (update_first p f xs) = map_option f (find p xs)"
  by (induction xs) auto

lemma find_append_new: "\<not> list_ex p xs \<Longrightarrow> p y \<Longrightarrow> find p (xs @ [y]) = Some y"
  by (induction xs) auto

lemma find_Some_list_ex: "find p xs = Some x \<Longrightarrow> list_ex p xs"
  by (induction xs) (auto split: if_splits)

lemma list_ex_find: "list_ex p xs \<Longrightarrow> \<exists>x. find p xs = Some x \<and> p x \<and> x \<in> set xs"
  by (induction xs) auto

lemma find_filter: "find p xs = Some x \<Longrightarrow> \<exists>rest. filter p xs = x # rest"
  by (induction xs) (auto split: if_splits)

lemma filter_no_match: "\<not> list_ex p xs \<Longrightarrow> filter p xs = []"
  by (induction xs) auto

lemma status_touched:
  assumes "upsert_set sts oid ''filename'' (BStr filename)
             [(''status'', BStr ''pending''), (''timestamp'', BTime t)] = (sts', r)"
  shows "\<exists>st. find (matches ''filename'' (BStr filename)) sts' = Some st \<and>
              map_of st ''timestamp'' = Some (BTime t) \<and>
              map_of st ''status'' = Some (BStr ''pending'')"
proof (cases "list_ex (matches ''filename'' (BStr filename)) sts")
  case True
  then obtain st where st: "find (matches ''filename'' (BStr filename)) sts = Some st"
    using list_ex_find by blast
  let ?f = "\<lambda>doc. set_fields doc [(''status'', BStr ''pending''), (''timestamp'', BTime t)]"
  have keep: "matches ''filename'' (BStr filename) (?f x)"
    if "matches ''filename'' (BStr filename) x" for x
    using that by (simp add: matches_def map_of_dict_set)
  have "sts' = update_first (matches ''filename'' (BStr filename)) ?f sts"
    using assms True by (simp add: upsert_set_def)
  then have "find (matches ''filename'' (BStr filename)) sts' = Some (?f st)"
    using find_update_first [of "matches ''filename'' (BStr filename)" ?f sts] keep st
    by simp
  then show ?thesis by (simp add: map_of_dict_set)
next
  case False
  let ?new = "set_fields [(''_id'', BOid oid), (''filename'', BStr filename)]
                [(''status'', BStr ''pending''), (''timestamp'', BTime t)]"
  have "sts' = sts @ [?new]"
    using assms False by (simp add: upsert_set_def)
  moreover have "matches ''filename'' (BStr filename) ?new"
    by (simp add: matches_def)
  ultimately have "find (matches ''filename'' (BStr filename)) sts' = Some ?new"
    using False by (simp add: find_append_new)
  then show ?thesis by simp
qed

lemma store_initial_metadata_existing:
  assumes readable: "read_file env file_path = Inr content"
    and db: "db_fails env (UpsertDocument filename) = None"
      "db_fails env (UpsertStatus filename) = None"
      "db_fails env (FindDocument filename) = None"
    and doc: "find (matches ''filename'' (BStr filename)) (documents w) = Some doc"
    and ident: "map_of doc ''_id'' = Some doc_id"
    and call: "store_initial_metadata env w filename file_path = (r, w')"
  shows "r = Inr doc_id \<and> documents w' = documents w \<and> errors w' = errors w \<and>
         (\<exists>st. find (matches ''filename'' (BStr filename)) (processing_status w') = Some st \<and>
               map_of st ''timestamp'' = Some (BTime (clock w + 3)) \<and>
               map_of st ''status'' = Some (BStr ''pending''))"
proof -
  have ex: "list_ex (matches ''filename'' (BStr filename)) (documents w)"
    using doc by (rule find_Some_list_ex)
  let ?t = "Suc (Suc (Suc (clock w)))"
  obtain sts' sid where up: "upsert_set (processing_status w) (next_oid w) ''filename'' (BStr filename)
             [(''status'', BStr ''pending''), (''timestamp'', BTime ?t)] = (sts', sid)"
    by (cases "upsert_set (processing_status w) (next_oid w) ''filename'' (BStr filename)
             [(''status'', BStr ''pending''), (''timestamp'', BTime ?t)]")
  have "fst (store_initial_metadata env w filename file_path) = Inr doc_id \<and>
        documents (snd (store_initial_metadata env w filename file_path)) = documents w \<and>
        errors (snd (store_initial_metadata env w filename file_path)) = errors w \<and>
        processing_status (snd (store_initial_metadata env w filename file_path)) = sts'"
    using readable db doc ident ex up
    by (simp add: store_initial_metadata_def now_def Let_def upsert_set_on_insert_def
        bump_oid_def)
  moreover have "?t = clock w + 3" by simp
  ultimately show ?thesis
    using call status_touched [OF up] by auto
qed


lemma store_initial_metadata_new:
  assumes readable: "read_file env file_path = Inr content"
    and db: "db_fails env (UpsertDocument filename) = None"
      "db_fails env (UpsertStatus filename) = None"
    and absent: "\<not> list_ex (matches ''filename'' (BStr filename)) (documents w)"
    and call: "store_initial_metadata env w filename file_path = (r, w')"
  shows "r = Inr (BOid (next_oid w)) \<and>
         (\<exists>doc. documents w' = documents w @ [doc] \<and>
                matches ''filename'' (BStr filename) doc \<and>
                map_of doc ''_id'' = Some (BOid (next_oid w)))"
proof -
  let ?t = "Suc (Suc (Suc (clock w)))"
  obtain sts' sid where up: "upsert_set (processing_status w) (Suc (next_oid w)) ''filename''
             (BStr filename)
             [(''status'', BStr ''pending''), (''timestamp'', BTime ?t)] = (sts', sid)"
    by (cases "upsert_set (processing_status w) (Suc (next_oid w)) ''filename'' (BStr filename)
             [(''status'', BStr ''pending''), (''timestamp'', BTime ?t)]")
  have "fst (store_initial_metadata env w filename file_path) = Inr (BOid (next_oid w)) \<and>
        (\<exists>doc. documents (snd (store_initial_metadata env w filename file_path)) =
                 documents w @ [doc] \<and>
               matches ''filename'' (BStr filename) doc \<and>
               map_of doc ''_id'' = Some (BOid (next_oid w)))"
    using readable db absent up
    by (simp add: store_initial_metadata_def now_def Let_def upsert_set_on_insert_def
        bump_oid_def matches_def)
  then show ?thesis using call by simp
qed

text \<open>
  Claim C3. When the file can be read and the server answers, two calls of
  \<open>store_initial_metadata\<close> with the same file name, on a store that held at most one
  document of that name, leave exactly one document of that name. The second call does
  not change the \<open>documents\<close> collection, it still sets the time stamp of the status
  entry (to its own fourth reading of the clock), and it returns the \<open>_id\<close> of the
  document, the same the first call returned.
\<close>

theorem store_initial_metadata_twice:
  assumes readable: "read_file env file_path = Inr content"
    and db: "db_fails env (UpsertDocument filename) = None"
      "db_fails env (UpsertStatus filename) = None"
      "db_fails env (FindDocument filename) = None"
    and ids: "has_ids (documents w)"
    and unique: "length (named filename (documents w)) \<le> 1"
    and first: "store_initial_metadata env w filename file_path = (r1, w1)"
    and second: "store_initial_metadata env w1 filename file_path = (r2, w2)"
  shows "\<exists>doc doc_id.
           r1 = Inr doc_id \<and> r2 = Inr doc_id \<and>
           named filename (documents w1) = [doc] \<and>
           documents w2 = documents w1 \<and>
           map_of doc ''_id'' = Some doc_id \<and>
           (\<exists>st. find (matches ''filename'' (BStr filename)) (processing_status w2) = Some st \<and>
                 map_of st ''timestamp'' = Some (BTime (clock w1 + 3)))"
proof -
  let ?p = "matches ''filename'' (BStr filename)"
  have after_first: "\<exists>doc doc_id. r1 = Inr doc_id \<and> find ?p (documents w1) = Some doc \<and>
      named filename (documents w1) = [doc] \<and> map_of doc ''_id'' = Some doc_id"
  proof (cases "list_ex ?p (documents w)")
    case False
    then obtain doc where r1: "r1 = Inr (BOid (next_oid w))"
      and docs: "documents w1 = documents w @ [doc]" and m: "?p doc"
      and i: "map_of doc ''_id'' = Some (BOid (next_oid w))"
      using store_initial_metadata_new [OF readable db(1,2) _ first] by blast
    have "find ?p (documents w1) = Some doc"
      using False m docs by (simp add: find_append_new)
    moreover have "named filename (documents w1) = [doc]"
      using False m docs by (simp add: named_def filter_no_match)
    ultimately show ?thesis using r1 i by blast
  next
    case True
    then obtain doc where f: "find ?p (documents w) = Some doc" and mem: "doc \<in> set (documents w)"
      using list_ex_find by blast
    then obtain doc_id where i: "map_of doc ''_id'' = Some doc_id"
      using ids by (auto simp: has_ids_def list_all_iff)
    have r: "r1 = Inr doc_id" and docs: "documents w1 = documents w"
      using store_initial_metadata_existing [OF readable db f i first] by simp_all
    obtain rest where "filter ?p (documents w) = doc # rest"
      using find_filter [OF f] by blast
    then have "named filename (documents w) = [doc]"
      using unique by (simp add: named_def)
    then show ?thesis using r docs f i by simp
  qed
  then obtain doc doc_id where r1: "r1 = Inr doc_id" and f: "find ?p (documents w1) = Some doc"
    and n: "named filename (documents w1) = [doc]" and i: "map_of doc ''_id'' = Some doc_id"
    by blast
  show ?thesis
    using store_initial_metadata_existing [OF readable db f i second] r1 n i by blast
qed

theorem store_initial_metadata_twice_witness:
  "read_file healthy_env ''d/a.pdf'' = Inr ''%PDF-1.4'' \<and>
   db_fails healthy_env (UpsertDocument ''a.pdf'') = None \<and>
   db_fails healthy_env (UpsertStatus ''a.pdf'') = None \<and>
   db_fails healthy_env (FindDocument ''a.pdf'') = None \<and>
   has_ids (documents empty_world) \<and>
   length (named ''a.pdf'' (documents empty_world)) \<le> 1 \<and>
   fst (store_initial_metadata healthy_env empty_world ''a.pdf'' ''d/a.pdf'') = Inr (BOid 0) \<and>
   fst (store_initial_metadata healthy_env
          (snd (store_initial_metadata healthy_env empty_world ''a.pdf'' ''d/a.pdf''))
          ''a.pdf'' ''d/a.pdf'') = Inr (BOid 0) \<and>
   length (named ''a.pdf'' (documents (snd (store_initial_metadata healthy_env
          (snd (store_initial_metadata healthy_env empty_world ''a.pdf'' ''d/a.pdf''))
          ''a.pdf'' ''d/a.pdf'')))) = 1"
proof -
  have a: "read_file healthy_env ''d/a.pdf'' = Inr ''%PDF-1.4''"
    by (simp add: healthy_env_def)
  have b: "db_fails healthy_env (UpsertDocument ''a.pdf'') = None"
    "db_fails healthy_env (UpsertStatus ''a.pdf'') = None"
    "db_fails healthy_env (FindDocument ''a.pdf'') = None"
    by (simp_all add: healthy_env_def)
  have c: "has_ids (documents empty_world)"
    by (simp add: has_ids_def empty_world_def)
  have d: "length (named ''a.pdf'' (documents empty_world)) \<le> 1"
    by (simp add: named_def empty_world_def)
  obtain r1 w1 where first:
    "store_initial_metadata healthy_env empty_world ''a.pdf'' ''d/a.pdf'' = (r1, w1)"
    by (cases "store_initial_metadata healthy_env empty_world ''a.pdf'' ''d/a.pdf''")
  obtain r2 w2 where second:
    "store_initial_metadata healthy_env w1 ''a.pdf'' ''d/a.pdf'' = (r2, w2)"
    by (cases "store_initial_metadata healthy_env w1 ''a.pdf'' ''d/a.pdf''")
  have v: "fst (store_initial_metadata healthy_env empty_world ''a.pdf'' ''d/a.pdf'') = Inr (BOid 0)"
    by code_simp
  obtain doc doc_id where "r1 = Inr doc_id" "r2 = Inr doc_id"
    "named ''a.pdf'' (documents w1) = [doc]" "documents w2 = documents w1"
    using store_initial_metadata_twice [OF a b c d first second] by blast
  then show ?thesis
    using a b c d first second v by simp
qed







lemma map_of_absent: "k \<notin> fst ` set d \<Longrightarrow> map_of d k = None"
  by (simp add: map_of_eq_None_iff)


lemma map_of_append_new: "k \<notin> fst ` set d \<Longrightarrow> map_of (d @ [(k, v)]) k' = (if k' = k then Some v else map_of d k')"
  by (auto simp: map_of_absent map_add_def split: option.splits)







section \<open>Properties of the processor at a failing stage\<close>













end
